theory Spec2Isabelle
  imports Complex_Main "HOL-Library.Log_Nat" "HOL-Library.Multiset"
begin

section \<open>Python floats\<close>

text \<open>
  \<open>AudioSegment.confidence\<close> and every score of \<open>match_content\<close> are Python floats,
  that is IEEE 754 binary64 values. A finite double is modelled by the rational number it
  denotes; the two infinities and NaN are values of their own. The two zeros of binary64
  are one value here: they compare equal in Python, and no operation of the program
  tells them apart (a score is only compared and returned when it is above zero).
\<close>

datatype pyfloat = Finite rat | PosInf | NegInf | NaN

text \<open>\<open>ilog2 x\<close> is the binary exponent of a positive rational: \<open>2 ^ e \<le> x < 2 ^ (e + 1)\<close>.\<close>

definition ilog2 :: "rat \<Rightarrow> int" where
  "ilog2 x = (if 1 \<le> x then bitlen \<lfloor>x\<rfloor> - 1 else - bitlen (\<lceil>1 / x\<rceil> - 1))"

text \<open>Rounding to the nearest integer, a tie going to the even neighbour.\<close>

definition round_half_even :: "rat \<Rightarrow> int" where
  "round_half_even x =
     (let f = \<lfloor>x\<rfloor>; r = x - of_int f
      in if r < 1 / 2 then f
         else if 1 / 2 < r then f + 1
         else if even f then f else f + 1)"

text \<open>
  \<open>round64\<close> is the rounding every binary64 operation ends with (round to nearest, ties
  to even): 53 significant bits, the exponent of a normal number at least \<open>-1022\<close> (below
  that the spacing stays \<open>2 ^ -1074\<close>, the subnormal numbers), and a result of magnitude
  \<open>2 ^ 1024\<close> or more is an infinity.
\<close>

definition round64 :: "rat \<Rightarrow> pyfloat" where
  "round64 x =
     (if x = 0 then Finite 0
      else let e = max (ilog2 \<bar>x\<bar>) (- 1022);
               u = 2 powi (e - 52);
               r = of_int (round_half_even (x / u)) * u
           in if 2 ^ 1024 \<le> \<bar>r\<bar> then (if 0 < x then PosInf else NegInf)
              else Finite r)"

text \<open>Python's \<open>a + b\<close> and \<open>a * b\<close> on floats; neither raises.\<close>

fun fadd :: "pyfloat \<Rightarrow> pyfloat \<Rightarrow> pyfloat" where
  "fadd NaN _ = NaN"
| "fadd _ NaN = NaN"
| "fadd (Finite a) (Finite b) = round64 (a + b)"
| "fadd PosInf NegInf = NaN"
| "fadd NegInf PosInf = NaN"
| "fadd PosInf _ = PosInf"
| "fadd _ PosInf = PosInf"
| "fadd NegInf _ = NegInf"
| "fadd _ NegInf = NegInf"

fun fmul :: "pyfloat \<Rightarrow> pyfloat \<Rightarrow> pyfloat" where
  "fmul NaN _ = NaN"
| "fmul _ NaN = NaN"
| "fmul (Finite a) (Finite b) = round64 (a * b)"
| "fmul (Finite a) PosInf = (if a = 0 then NaN else if 0 < a then PosInf else NegInf)"
| "fmul (Finite a) NegInf = (if a = 0 then NaN else if 0 < a then NegInf else PosInf)"
| "fmul PosInf (Finite b) = (if b = 0 then NaN else if 0 < b then PosInf else NegInf)"
| "fmul NegInf (Finite b) = (if b = 0 then NaN else if 0 < b then NegInf else PosInf)"
| "fmul PosInf PosInf = PosInf"
| "fmul NegInf NegInf = PosInf"
| "fmul PosInf NegInf = NegInf"
| "fmul NegInf PosInf = NegInf"

text \<open>Python's \<open>a < b\<close> and \<open>a > b\<close> on floats: every comparison with NaN is false.\<close>

fun flt :: "pyfloat \<Rightarrow> pyfloat \<Rightarrow> bool" where
  "flt NaN _ = False"
| "flt _ NaN = False"
| "flt (Finite a) (Finite b) = (a < b)"
| "flt (Finite a) PosInf = True"
| "flt NegInf (Finite b) = True"
| "flt NegInf PosInf = True"
| "flt _ _ = False"

definition fgt :: "pyfloat \<Rightarrow> pyfloat \<Rightarrow> bool" where
  "fgt a b = flt b a"

definition fge :: "pyfloat \<Rightarrow> pyfloat \<Rightarrow> bool" where
  "fge a b = (a \<noteq> NaN \<and> b \<noteq> NaN \<and> (flt b a \<or> a = b))"

text \<open>
  \<open>len(common_topics) * 0.5\<close> multiplies an int by a float: Python converts the int to
  the nearest double first (it raises only for an int of \<open>2 ^ 1024\<close> or more, which no
  length of a set is). A float literal denotes the double nearest to its decimal.
\<close>

definition float_of_nat :: "nat \<Rightarrow> pyfloat" where
  "float_of_nat n = round64 (of_nat n)"

definition float_literal :: "rat \<Rightarrow> pyfloat" where
  "float_literal d = round64 d"

section \<open>The data model\<close>

text \<open>The dataclass \<open>AudioSegment\<close>.\<close>

record AudioSegment =
  start_ms :: int
  end_ms :: int
  seg_text :: string
  topics :: "string list"
  sentiment :: string
  confidence :: pyfloat

text \<open>
  The \<open>user_preferences\<close> dictionary. \<open>match_content\<close> reads its keys \<open>'topics'\<close> and
  \<open>'preferred_tone'\<close> with \<open>dict.get\<close>: \<open>None\<close> is an absent key.
\<close>

record preferences =
  pref_topics :: "string list option"
  preferred_tone :: "string option"

section \<open>ContentMatcher\<close>

record ContentMatcher =
  segments :: "AudioSegment list"

definition init_matcher :: ContentMatcher where
  "init_matcher = \<lparr>segments = []\<rparr>"

definition add_segments :: "ContentMatcher \<Rightarrow> AudioSegment list \<Rightarrow> ContentMatcher" where
  "add_segments m segs = m\<lparr>segments := segments m @ segs\<rparr>"

text \<open>The body of the loop of \<open>match_content\<close> up to the test \<open>score > 0\<close>.\<close>

definition segment_score :: "preferences \<Rightarrow> AudioSegment \<Rightarrow> pyfloat" where
  "segment_score prefs segment =
     (let score = Finite 0;
          common_topics = set (topics segment) \<inter>
            set (case pref_topics prefs of None \<Rightarrow> [] | Some ts \<Rightarrow> ts);
          score = fadd score (fmul (float_of_nat (card common_topics)) (float_literal (5 / 10)));
          score = (if Some (sentiment segment) = preferred_tone prefs
                   then fadd score (float_literal (3 / 10)) else score);
          score = fmul score (confidence segment)
      in score)"

text \<open>The loop: \<open>matches\<close> is the list built so far.\<close>

fun match_loop ::
  "preferences \<Rightarrow> AudioSegment list \<Rightarrow> (AudioSegment \<times> pyfloat) list \<Rightarrow>
     (AudioSegment \<times> pyfloat) list" where
  "match_loop prefs [] matches = matches"
| "match_loop prefs (segment # rest) matches =
     (let score = segment_score prefs segment
      in match_loop prefs rest
           (if fgt score (Finite 0) then matches @ [(segment, score)] else matches))"

text \<open>
  \<open>sorted(matches, key=lambda x: x[1], reverse=True)\<close>. Python's sort compares keys with
  \<open><\<close> only and is stable, also under \<open>reverse=True\<close>: elements with equal keys keep
  the order they had in \<open>matches\<close>. A stable insertion sort into descending order
  computes that list whenever \<open><\<close> is a total order on the keys, that is when no key is
  NaN.
\<close>

fun insort_desc ::
  "(AudioSegment \<times> pyfloat) \<Rightarrow> (AudioSegment \<times> pyfloat) list \<Rightarrow> (AudioSegment \<times> pyfloat) list"
  where
  "insort_desc x [] = [x]"
| "insort_desc x (y # ys) =
     (if flt (snd x) (snd y) then y # insort_desc x ys else x # y # ys)"

definition sorted_desc :: "(AudioSegment \<times> pyfloat) list \<Rightarrow> (AudioSegment \<times> pyfloat) list" where
  "sorted_desc matches = foldr insort_desc matches []"

definition match_content ::
  "ContentMatcher \<Rightarrow> preferences \<Rightarrow> (AudioSegment \<times> pyfloat) list" where
  "match_content m user_preferences = sorted_desc (match_loop user_preferences (segments m) [])"

text \<open>
  What the specification says \<open>match_content\<close> keeps: the pairs of a segment and its score, for
  the segments whose score is above zero, in the order of the working set.
\<close>

definition positive_matches :: "preferences \<Rightarrow> AudioSegment list \<Rightarrow> (AudioSegment \<times> pyfloat) list" where
  "positive_matches prefs segs =
     filter (\<lambda>x. fgt (snd x) (Finite 0)) (map (\<lambda>s. (s, segment_score prefs s)) segs)"

section \<open>AudioAnalyzer\<close>

text \<open>
  The exceptions the code raises, each with its message (\<open>KeyError\<close> with the missing key).
  The specification's \<open>NotFoundError\<close> is \<open>FileNotFoundError\<close>; its \<open>UploadError\<close>,
  \<open>SubmissionError\<close> and \<open>TranscriptionError\<close> are all \<open>RuntimeError\<close> in the code, told
  apart by the message.
\<close>

datatype py_exception = FileNotFoundError string | RuntimeError string | KeyError string

text \<open>\<open>str(e)\<close>: the message; for a \<open>KeyError\<close> the key between single quotes.\<close>

fun str_of_exception :: "py_exception \<Rightarrow> string" where
  "str_of_exception (FileNotFoundError msg) = msg"
| "str_of_exception (RuntimeError msg) = msg"
| "str_of_exception (KeyError k) = CHR 0x27 # k @ [CHR 0x27]"

text \<open>The decimal digits of an int, as an f-string formats \<open>response.status_code\<close>.\<close>

fun str_of_nat :: "nat \<Rightarrow> string" where
  "str_of_nat n =
     (if n < 10 then [char_of (48 + n)] else str_of_nat (n div 10) @ [char_of (48 + n mod 10)])"

declare str_of_nat.simps [simp del]

definition str_of_int :: "int \<Rightarrow> string" where
  "str_of_int i = (if i < 0 then CHR ''-'' # str_of_nat (nat (- i)) else str_of_nat (nat i))"

text \<open>
  What the process does to the outside, in order: the HTTP requests (the chunks streamed
  to \<open>/upload\<close>, the \<open>audio_url\<close> posted to \<open>/transcript\<close>, the job id polled) and the
  calls of \<open>time.sleep\<close> with their seconds. Printing is left out.
\<close>

datatype request = PostUpload "string list" | PostTranscript string | GetTranscript string

datatype event = Http request | Sleep nat

text \<open>
  A response of \<open>requests\<close>: \<open>status_code\<close>, \<open>text\<close> and the object \<open>json()\<close> returns, as
  far as the code reads it (string fields, \<open>None\<close> for an absent key).
\<close>

record response =
  status_code :: int
  resp_text :: string
  json :: "string \<rightharpoonup> string"

text \<open>
  A chapter object of the service, with the types of the service's contract; \<open>None\<close> is
  an absent key. The fields are the keys \<open>start\<close>, \<open>end\<close>, \<open>summary\<close>, \<open>topics\<close>,
  \<open>sentiment\<close> and \<open>confidence\<close>.
\<close>

record chapter_obj =
  ch_start :: "int option"
  ch_end :: "int option"
  ch_summary :: "string option"
  ch_topics :: "string list option"
  ch_sentiment :: "string option"
  ch_confidence :: "pyfloat option"

text \<open>The object a poll of \<open>/transcript/{id}\<close> returns: the keys \<open>status\<close>, \<open>error\<close>, \<open>chapters\<close>.\<close>

record transcript =
  status :: "string option"
  error :: "string option"
  chapters :: "chapter_obj list option"

text \<open>
  The outside world of one call: the local files that exist, with their bytes, and what
  the service answers to the upload, to the submission, and to the polls, the first poll
  being number 0. The service is a black box, so its answers are inputs.
\<close>

record world =
  files :: "string \<rightharpoonup> string"
  upload_response :: response
  transcript_response :: response
  poll_responses :: "nat \<Rightarrow> transcript"

text \<open>The generator \<open>read_file\<close>: the bytes of the file in chunks of 5 MiB.\<close>

function read_file :: "string \<Rightarrow> string list" where
  "read_file f =
     (let data = take 5242880 f
      in if data = [] then [] else data # read_file (drop 5242880 f))"
  by pat_completeness auto
termination
  by (relation "measure length") auto

declare read_file.simps [simp del]

text \<open>
  \<open>_upload_file\<close>. \<open>open\<close> fails on a missing file when \<open>requests\<close> starts to read the
  body; \<open>analyze_audio\<close> checks the path first, so it does not reach that branch, and the
  model records no request for it.
\<close>

definition upload_file :: "world \<Rightarrow> string \<Rightarrow> event list \<times> (py_exception + string)" where
  "upload_file w file_path =
     (case files w file_path of
        None \<Rightarrow> ([], Inl (FileNotFoundError file_path))
      | Some f \<Rightarrow>
          let trace = [Http (PostUpload (read_file f))];
              resp = upload_response w
          in if status_code resp \<noteq> 200
             then (trace, Inl (RuntimeError (''Upload failed: '' @ resp_text resp)))
             else (case json resp ''upload_url'' of
                     None \<Rightarrow> (trace, Inl (KeyError ''upload_url''))
                   | Some url \<Rightarrow> (trace, Inr url)))"

text \<open>
  \<open>analyze_audio\<close> up to the job id (lines 65 to 105): the check of the path, the upload
  unless the source is a URL, and the submission.
\<close>

definition start_transcription ::
  "world \<Rightarrow> string \<Rightarrow> bool \<Rightarrow> event list \<times> (py_exception + string)" where
  "start_transcription w audio_path is_url =
     (if \<not> is_url \<and> files w audio_path = None
      then ([], Inl (FileNotFoundError (''Audio file not found: '' @ audio_path)))
      else
        (case (if is_url then ([], Inr audio_path) else upload_file w audio_path) of
           (trace, Inl e) \<Rightarrow>
             (trace, Inl (RuntimeError (''Failed to upload file: '' @ str_of_exception e)))
         | (trace, Inr audio_url) \<Rightarrow>
             let resp = transcript_response w;
                 trace = trace @ [Http (PostTranscript audio_url)]
             in if status_code resp \<noteq> 200
                then (trace, Inl (RuntimeError
                       (''Failed to create transcription. Status code: '' @
                          str_of_int (status_code resp))))
                else (case json resp ''id'' of
                        None \<Rightarrow>
                          (trace, Inl (RuntimeError
                             ''Failed to get transcription ID from API response''))
                      | Some transcript_id \<Rightarrow> (trace, Inr transcript_id))))"

text \<open>
  The polling loop \<open>while True\<close> (lines 113 to 127), at poll number \<open>i\<close> with the events so
  far. It need not return: \<open>None\<close> is a loop that runs forever.
\<close>

partial_function (option) poll ::
  "(nat \<Rightarrow> transcript) \<Rightarrow> string \<Rightarrow> nat \<Rightarrow> event list \<Rightarrow>
     (event list \<times> (py_exception + transcript)) option" where
  "poll responses transcript_id i trace =
     (let transcript = responses i;
          trace = trace @ [Http (GetTranscript transcript_id)]
      in if status transcript = Some ''completed'' then Some (trace, Inr transcript)
         else if status transcript = Some ''error''
         then Some (trace, Inl (RuntimeError (''Transcription failed: '' @
                (case error transcript of None \<Rightarrow> ''Unknown error'' | Some e \<Rightarrow> e))))
         else poll responses transcript_id (Suc i) (trace @ [Sleep 30]))"

text \<open>
  The loop over the chapters (lines 137 to 146); \<open>segs\<close> is the list \<open>segments\<close> built so
  far.
\<close>

fun chapter_loop :: "chapter_obj list \<Rightarrow> AudioSegment list \<Rightarrow> py_exception + AudioSegment list" where
  "chapter_loop [] segs = Inr segs"
| "chapter_loop (chapter # rest) segs =
     (case ch_start chapter of
        None \<Rightarrow> Inl (KeyError ''start'')
      | Some s \<Rightarrow>
          (case ch_end chapter of
             None \<Rightarrow> Inl (KeyError ''end'')
           | Some e \<Rightarrow>
               chapter_loop rest
                 (segs @
                  [\<lparr>start_ms = s, end_ms = e,
                    seg_text = (case ch_summary chapter of None \<Rightarrow> [] | Some t \<Rightarrow> t),
                    topics = (case ch_topics chapter of None \<Rightarrow> [] | Some ts \<Rightarrow> ts),
                    sentiment = (case ch_sentiment chapter of None \<Rightarrow> ''neutral'' | Some v \<Rightarrow> v),
                    confidence =
                      (case ch_confidence chapter of None \<Rightarrow> float_literal 1 | Some c \<Rightarrow> c)\<rparr>])))"

text \<open>The end of \<open>analyze_audio\<close> (lines 129 to 148), on the completed transcript.\<close>

definition process_results :: "transcript \<Rightarrow> py_exception + AudioSegment list" where
  "process_results transcript =
     (let segs = [];
          chs = (case chapters transcript of None \<Rightarrow> [] | Some cs \<Rightarrow> cs)
      in if chs = [] then Inr segs else chapter_loop chs segs)"

text \<open>\<open>analyze_audio\<close>: the events of the call and its result, if it returns.\<close>

definition analyze_audio ::
  "world \<Rightarrow> string \<Rightarrow> bool \<Rightarrow> (event list \<times> (py_exception + AudioSegment list)) option" where
  "analyze_audio w audio_path is_url =
     (case start_transcription w audio_path is_url of
        (trace, Inl e) \<Rightarrow> Some (trace, Inl e)
      | (trace, Inr transcript_id) \<Rightarrow>
          (case poll (poll_responses w) transcript_id 0 trace of
             None \<Rightarrow> None
           | Some (trace, Inl e) \<Rightarrow> Some (trace, Inl e)
           | Some (trace, Inr transcript) \<Rightarrow> Some (trace, process_results transcript)))"

text \<open>A status that is neither \<open>completed\<close> nor \<open>error\<close> (also an absent one).\<close>

definition pending :: "transcript \<Rightarrow> bool" where
  "pending t = (status t \<noteq> Some ''completed'' \<and> status t \<noteq> Some ''error'')"

text \<open>
  What C4 says of a chapter and the segment made from it: the times are copied, and each
  optional field is copied when present and takes its default when absent.
\<close>

definition chapter_maps_to :: "chapter_obj \<Rightarrow> AudioSegment \<Rightarrow> bool" where
  "chapter_maps_to c s =
     (ch_start c = Some (start_ms s) \<and> ch_end c = Some (end_ms s)
      \<and> seg_text s = (case ch_summary c of None \<Rightarrow> [] | Some t \<Rightarrow> t)
      \<and> topics s = (case ch_topics c of None \<Rightarrow> [] | Some ts \<Rightarrow> ts)
      \<and> sentiment s = (case ch_sentiment c of None \<Rightarrow> ''neutral'' | Some v \<Rightarrow> v)
      \<and> confidence s = (case ch_confidence c of None \<Rightarrow> Finite 1 | Some v \<Rightarrow> v))"

text \<open>The events of \<open>n\<close> polls that found the job pending, each followed by its sleep.\<close>

definition retries :: "string \<Rightarrow> nat \<Rightarrow> event list" where
  "retries transcript_id n = concat (replicate n [Http (GetTranscript transcript_id), Sleep 30])"

section \<open>Example inputs\<close>

text \<open>The segment and the preferences of the scoring example of the specification.\<close>

definition example_segment :: AudioSegment where
  "example_segment =
     \<lparr>start_ms = 0, end_ms = 1000, seg_text = [], topics = [''tech'', ''sports''],
      sentiment = ''positive'', confidence = float_literal (8 / 10)\<rparr>"

definition example_preferences :: preferences where
  "example_preferences = \<lparr>pref_topics = Some [''tech''], preferred_tone = Some ''positive''\<rparr>"

text \<open>A segment that matches the example preferences in topic and tone, with confidence 0.\<close>

definition zero_confidence_segment :: AudioSegment where
  "zero_confidence_segment = example_segment\<lparr>confidence := Finite 0\<rparr>"

text \<open>A segment that shares no topic with the example preferences and has another tone.\<close>

definition unrelated_segment :: AudioSegment where
  "unrelated_segment =
     \<lparr>start_ms = 1000, end_ms = 2000, seg_text = [], topics = [''cooking''],
      sentiment = ''negative'', confidence = Finite 1\<rparr>"

text \<open>
  A world for the examples: one local file, a service that accepts the upload and the
  submission, and a job that is pending at the first two polls and completed at the third,
  with one chapter that has every field and one that has only its times.
\<close>

definition full_chapter :: chapter_obj where
  "full_chapter =
     \<lparr>ch_start = Some 0, ch_end = Some 1000, ch_summary = Some ''Intro'',
      ch_topics = Some [''tech''], ch_sentiment = Some ''positive'',
      ch_confidence = Some (Finite (1 / 2))\<rparr>"

definition bare_chapter :: chapter_obj where
  "bare_chapter =
     \<lparr>ch_start = Some 1000, ch_end = Some 2000, ch_summary = None, ch_topics = None,
      ch_sentiment = None, ch_confidence = None\<rparr>"

definition example_world :: world where
  "example_world =
     \<lparr>files = [''talk.mp3'' \<mapsto> ''RIFF''],
      upload_response =
        \<lparr>status_code = 200, resp_text = ''ok'', json = [''upload_url'' \<mapsto> ''https://cdn/u1'']\<rparr>,
      transcript_response =
        \<lparr>status_code = 200, resp_text = ''ok'', json = [''id'' \<mapsto> ''job1'']\<rparr>,
      poll_responses =
        (\<lambda>n. if n < 2 then \<lparr>status = Some ''processing'', error = None, chapters = None\<rparr>
             else \<lparr>status = Some ''completed'', error = None,
                    chapters = Some [full_chapter, bare_chapter]\<rparr>)\<rparr>"

text \<open>Variants of the example world: what the service answers differs.\<close>

definition chapterless_world :: world where
  "chapterless_world =
     example_world\<lparr>poll_responses :=
       (\<lambda>n. \<lparr>status = Some ''completed'', error = None, chapters = Some []\<rparr>)\<rparr>"

definition failing_job_world :: world where
  "failing_job_world =
     example_world\<lparr>poll_responses :=
       (\<lambda>n. if n < 1 then \<lparr>status = Some ''queued'', error = None, chapters = None\<rparr>
            else \<lparr>status = Some ''error'', error = Some ''bad audio'', chapters = None\<rparr>)\<rparr>"

definition stuck_job_world :: world where
  "stuck_job_world =
     example_world\<lparr>poll_responses :=
       (\<lambda>n. \<lparr>status = Some ''processing'', error = None, chapters = None\<rparr>)\<rparr>"

definition rejecting_world :: world where
  "rejecting_world =
     example_world\<lparr>upload_response :=
       \<lparr>status_code = 500, resp_text = ''Internal Server Error'', json = Map.empty\<rparr>\<rparr>"

definition endless_chapter :: chapter_obj where
  "endless_chapter = full_chapter\<lparr>ch_end := None\<rparr>"

definition broken_chapter_world :: world where
  "broken_chapter_world =
     example_world\<lparr>poll_responses :=
       (\<lambda>n. \<lparr>status = Some ''completed'', error = None,
              chapters = Some [bare_chapter, endless_chapter]\<rparr>)\<rparr>"

section \<open>Properties of the float model\<close>

lemma ilog2_bounds:
  assumes "0 < x"
  shows "2 powi (ilog2 x) \<le> x \<and> x < 2 powi (ilog2 x + 1)"
proof (cases "1 \<le> x")
  case True
  define n where "n = \<lfloor>x\<rfloor>"
  have n1: "1 \<le> n" using True by (simp add: n_def)
  then have n0: "0 < n" by simp
  have bl: "1 \<le> bitlen n" using n0 by (simp add: bitlen_alt_def)
  from bitlen_bounds[OF n0] have b1: "2 ^ nat (bitlen n - 1) \<le> n" and b2: "n < 2 ^ nat (bitlen n)"
    by auto
  have "(2::rat) powi (bitlen n - 1) = 2 ^ nat (bitlen n - 1)"
    using bl by (simp add: power_int_def)
  also have "\<dots> = of_int (2 ^ nat (bitlen n - 1))" by simp
  also have "\<dots> \<le> of_int n" using b1 by (simp only: of_int_le_iff)
  also have "\<dots> \<le> x" by (simp add: n_def)
  finally have lo: "2 powi (bitlen n - 1) \<le> x" .
  have "n + 1 \<le> 2 ^ nat (bitlen n)" using b2 by simp
  then have "(of_int (n + 1) :: rat) \<le> of_int (2 ^ nat (bitlen n))" by (simp only: of_int_le_iff)
  moreover have "x < of_int (n + 1)" unfolding n_def by linarith
  ultimately have "x < of_int (2 ^ nat (bitlen n))" by linarith
  also have "\<dots> = 2 powi (bitlen n)" using bl by (simp add: power_int_def)
  finally have hi: "x < 2 powi (bitlen n - 1 + 1)" by simp
  show ?thesis using True lo hi by (simp add: ilog2_def n_def)
next
  case False
  then have x1: "x < 1" by simp
  define y where "y = 1 / x"
  have y1: "1 < y" using assms x1 by (simp add: y_def)
  define c where "c = \<lceil>y\<rceil> - 1"
  have c0: "0 < c" using y1 unfolding c_def by linarith
  have cy: "of_int c < y" unfolding c_def by linarith
  have yc: "y \<le> of_int (c + 1)" unfolding c_def by simp
  have bl: "1 \<le> bitlen c" using c0 by (simp add: bitlen_alt_def)
  from bitlen_bounds[OF c0] have b1: "2 ^ nat (bitlen c - 1) \<le> c" and b2: "c < 2 ^ nat (bitlen c)"
    by auto
  have "c + 1 \<le> 2 ^ nat (bitlen c)" using b2 by simp
  then have "(of_int (c + 1) :: rat) \<le> of_int (2 ^ nat (bitlen c))" by (simp only: of_int_le_iff)
  then have "y \<le> of_int (2 ^ nat (bitlen c))" using yc by linarith
  also have "\<dots> = 2 powi (bitlen c)" using bl by (simp add: power_int_def)
  finally have yhi: "y \<le> 2 powi (bitlen c)" .
  have "(2::rat) powi (bitlen c - 1) = of_int (2 ^ nat (bitlen c - 1))"
    using bl by (simp add: power_int_def)
  also have "\<dots> \<le> of_int c" using b1 by (simp only: of_int_le_iff)
  also have "\<dots> < y" by (rule cy)
  finally have ylo: "2 powi (bitlen c - 1) < y" .
  have xy: "x = 1 / y" using assms by (simp add: y_def)
  have p0: "\<And>k. (0::rat) < 2 powi k" by simp
  have lo: "2 powi (- bitlen c) \<le> x"
  proof -
    have "1 / (2 powi (bitlen c)) \<le> 1 / y"
      using yhi y1 by (intro divide_left_mono) (auto intro: mult_pos_pos)
    then show ?thesis by (simp only: xy power_int_minus_divide)
  qed
  have hi: "x < 2 powi (- bitlen c + 1)"
  proof -
    have "1 / y < 1 / (2 powi (bitlen c - 1))"
      using ylo y1 p0[of "bitlen c - 1"] by (intro divide_strict_left_mono) (auto intro: mult_pos_pos)
    also have "\<dots> = 2 powi (- (bitlen c - 1))" by (simp only: power_int_minus_divide)
    finally show ?thesis by (simp add: xy)
  qed
  show ?thesis using False lo hi by (simp add: ilog2_def y_def c_def)
qed

lemma ilog2_eqI:
  assumes "2 powi e \<le> x" and "x < 2 powi (e + 1)"
  shows "ilog2 x = e"
proof -
  have x0: "0 < x" using assms(1) by (rule less_le_trans[rotated]) simp
  from ilog2_bounds[OF x0] have l: "2 powi (ilog2 x) \<le> x" and h: "x < 2 powi (ilog2 x + 1)"
    by auto
  have a: "e < ilog2 x + 1"
  proof (rule ccontr)
    assume "\<not> e < ilog2 x + 1"
    then have "(2::rat) powi (ilog2 x + 1) \<le> 2 powi e" by (intro power_int_increasing) auto
    with assms(1) h show False by linarith
  qed
  have b: "ilog2 x < e + 1"
  proof (rule ccontr)
    assume "\<not> ilog2 x < e + 1"
    then have "(2::rat) powi (e + 1) \<le> 2 powi (ilog2 x)" by (intro power_int_increasing) auto
    with assms(2) l show False by linarith
  qed
  from a b show ?thesis by linarith
qed

lemma round_half_even_of_int [simp]: "round_half_even (of_int m) = m"
  by (simp add: round_half_even_def)

lemma round_half_even_near:
  assumes "\<bar>x - of_int m\<bar> < 1 / 2"
  shows "round_half_even x = m"
proof -
  have lo: "of_int (m - 1) \<le> x" and hi: "x < of_int (m + 1)"
    using assms by (simp_all only: abs_less_iff of_int_diff of_int_add of_int_1) linarith+
  have "m - 1 \<le> \<lfloor>x\<rfloor>" using lo by (simp only: le_floor_iff)
  moreover have "\<lfloor>x\<rfloor> < m + 1" using hi by (simp only: floor_less_iff)
  ultimately have "\<lfloor>x\<rfloor> = m \<or> \<lfloor>x\<rfloor> = m - 1" by linarith
  then show ?thesis
  proof
    assume f: "\<lfloor>x\<rfloor> = m"
    have "x - of_int m < 1 / 2" using assms by linarith
    then show ?thesis using f by (simp add: round_half_even_def Let_def)
  next
    assume f: "\<lfloor>x\<rfloor> = m - 1"
    have "x - of_int (m - 1) > 1 / 2"
      using assms by (simp only: abs_less_iff of_int_diff of_int_1) linarith
    then show ?thesis using f by (simp add: round_half_even_def Let_def)
  qed
qed

lemma round64_at:
  assumes "2 powi e \<le> \<bar>x\<bar>" and "\<bar>x\<bar> < 2 powi (e + 1)" and "- 1022 \<le> e"
    and "round_half_even (x / 2 powi (e - 52)) = m"
    and "\<bar>of_int m * 2 powi (e - 52)\<bar> < (2::rat) ^ 1024"
  shows "round64 x = Finite (of_int m * 2 powi (e - 52))"
proof -
  have "(0::rat) < 2 powi e" by simp
  then have "0 < \<bar>x\<bar>" using assms(1) by linarith
  then have x0: "x \<noteq> 0" by simp
  have "ilog2 \<bar>x\<bar> = e" using assms(1,2) by (rule ilog2_eqI)
  then have "max (ilog2 \<bar>x\<bar>) (- 1022) = e" using assms(3) by simp
  then show ?thesis using x0 assms(4,5) by (simp add: round64_def Let_def)
qed

lemma round_half_even_bounds:
  assumes "\<bar>y\<bar> \<le> of_int N"
  shows "\<bar>round_half_even y\<bar> \<le> N"
proof -
  have lo: "- N \<le> \<lfloor>y\<rfloor>"
  proof -
    have "of_int (- N) \<le> y" using assms by simp
    then show ?thesis by (simp only: le_floor_iff)
  qed
  have fy: "of_int \<lfloor>y\<rfloor> \<le> y" by simp
  have yN: "y \<le> of_int N" using assms by linarith
  have fN: "\<lfloor>y\<rfloor> \<le> N" using yN by (simp add: floor_le_iff)
  have ge: "\<lfloor>y\<rfloor> \<le> round_half_even y" by (simp add: round_half_even_def Let_def)
  have le: "round_half_even y \<le> N"
  proof (cases "\<lfloor>y\<rfloor> = N")
    case True
    then have "y = of_int N" using fy yN by simp
    then show ?thesis by simp
  next
    case False
    then have "\<lfloor>y\<rfloor> + 1 \<le> N" using fN by simp
    moreover have "round_half_even y \<le> \<lfloor>y\<rfloor> + 1" by (simp add: round_half_even_def Let_def)
    ultimately show ?thesis by linarith
  qed
  from lo ge le show ?thesis by linarith
qed

lemma round64_representable:
  assumes r0: "r \<noteq> 0" and fin: "\<bar>r\<bar> < 2 ^ 1024"
    and int: "r / 2 powi (max (ilog2 \<bar>r\<bar>) (- 1022) - 52) = of_int k"
  shows "round64 r = Finite r"
proof -
  define u :: rat where "u = 2 powi (max (ilog2 \<bar>r\<bar>) (- 1022) - 52)"
  have u0: "u \<noteq> 0" by (simp add: u_def)
  have ru: "r / u = of_int k" using int by (simp only: u_def)
  then have rk: "of_int k * u = r" using u0 by (simp add: field_simps)
  have m: "round_half_even (r / u) = k" by (simp only: ru round_half_even_of_int)
  have nle: "\<not> 2 ^ 1024 \<le> \<bar>r\<bar>" using fin by (simp only: not_le)
  have "round64 r =
      (if 2 ^ 1024 \<le> \<bar>of_int (round_half_even (r / u)) * u\<bar>
       then (if 0 < r then PosInf else NegInf)
       else Finite (of_int (round_half_even (r / u)) * u))"
    using r0 by (simp only: round64_def Let_def u_def if_False)
  then show ?thesis by (simp only: m rk nle if_False)
qed

lemma round64_idem:
  assumes "round64 x = Finite r"
  shows "round64 r = Finite r"
proof (cases "r = 0")
  case True
  then show ?thesis by (simp add: round64_def)
next
  case r0: False
  have x0: "x \<noteq> 0" using assms r0 by (auto simp: round64_def)
  define e where "e = max (ilog2 \<bar>x\<bar>) (- 1022)"
  define u :: rat where "u = 2 powi (e - 52)"
  define m where "m = round_half_even (x / u)"
  have upos: "0 < u" by (simp add: u_def)
  have rm: "r = of_int m * u" and fin: "\<bar>r\<bar> < 2 ^ 1024"
    using assms x0 by (auto simp: round64_def Let_def e_def u_def m_def split: if_splits)
  have e_ge: "- 1022 \<le> e" by (simp add: e_def)
  have "\<bar>x\<bar> < 2 powi (ilog2 \<bar>x\<bar> + 1)" using ilog2_bounds[of "\<bar>x\<bar>"] x0 by simp
  also have "\<dots> \<le> 2 powi (e + 1)" by (intro power_int_increasing) (auto simp: e_def)
  finally have xlt: "\<bar>x\<bar> < 2 powi (e + 1)" .
  have "2 powi (e + 1) = u * (2::rat) ^ 53"
  proof -
    have "e + 1 = (e - 52) + 53" by arith
    then have "(2::rat) powi (e + 1) = 2 powi ((e - 52) + 53)" by (rule arg_cong)
    also have "\<dots> = 2 powi (e - 52) * 2 powi 53" by (rule power_int_add) simp
    finally show ?thesis by (simp add: u_def)
  qed
  then have "\<bar>x\<bar> / u < 2 ^ 53" using xlt upos by (simp add: field_simps)
  then have "\<bar>x / u\<bar> \<le> of_int (2 ^ 53)" using upos by simp
  then have mb: "\<bar>m\<bar> \<le> 2 ^ 53" unfolding m_def by (rule round_half_even_bounds)
  have rpos: "0 < \<bar>r\<bar>" using r0 by simp
  define e' where "e' = max (ilog2 \<bar>r\<bar>) (- 1022)"
  have "\<exists>k. r / 2 powi (e' - 52) = of_int k"
  proof (cases "e' \<le> e")
    case True
    have "u = 2 powi (e' - 52) * 2 powi (e - e')"
    proof -
      have "e - 52 = (e' - 52) + (e - e')" by arith
      then have "(2::rat) powi (e - 52) = 2 powi ((e' - 52) + (e - e'))" by (rule arg_cong)
      also have "\<dots> = 2 powi (e' - 52) * 2 powi (e - e')" by (rule power_int_add) simp
      finally show ?thesis by (simp add: u_def)
    qed
    also have "(2::rat) powi (e - e') = of_int (2 ^ nat (e - e'))"
      using True by (simp add: power_int_def)
    finally have "r / 2 powi (e' - 52) = of_int (m * 2 ^ nat (e - e'))"
      by (simp add: rm)
    then show ?thesis by blast
  next
    case False
    then have gt: "e < e'" by simp
    then have e'_eq: "e' = ilog2 \<bar>r\<bar>" using e_ge by (simp add: e'_def)
    have lo: "2 powi e' \<le> \<bar>r\<bar>" using ilog2_bounds[OF rpos] by (simp add: e'_eq)
    have "\<bar>r\<bar> = of_int \<bar>m\<bar> * u" using upos by (simp add: rm abs_mult)
    also have "\<dots> \<le> of_int (2 ^ 53) * u"
    proof (rule mult_right_mono)
      show "(of_int \<bar>m\<bar> :: rat) \<le> of_int (2 ^ 53)" using mb by (simp only: of_int_le_iff)
      show "0 \<le> u" using upos by simp
    qed
    also have "\<dots> = 2 powi (e + 1)" using \<open>2 powi (e + 1) = u * 2 ^ 53\<close> by simp
    finally have hi: "\<bar>r\<bar> \<le> 2 powi (e + 1)" .
    have "(2::rat) powi (e + 1) \<le> 2 powi e'" using gt by (intro power_int_increasing) auto
    with lo hi have req: "\<bar>r\<bar> = 2 powi (e + 1)" and "(2::rat) powi e' = 2 powi (e + 1)" by linarith+
    have e'1: "e' = e + 1"
    proof (rule ccontr)
      assume "e' \<noteq> e + 1"
      then have "e + 1 < e'" using gt by simp
      then have "(2::rat) powi (e + 1) < 2 powi e'" by (intro power_int_strict_increasing) auto
      with \<open>(2::rat) powi e' = 2 powi (e + 1)\<close> show False by simp
    qed
    have "of_int \<bar>m\<bar> * u = of_int (2 ^ 53) * u"
      using req \<open>\<bar>r\<bar> = of_int \<bar>m\<bar> * u\<close> \<open>2 powi (e + 1) = u * 2 ^ 53\<close> by simp
    then have "(of_int \<bar>m\<bar> :: rat) = of_int (2 ^ 53)" using upos by simp
    then have mabs: "\<bar>m\<bar> = 2 ^ 53" by (simp only: of_int_eq_iff)
    have "e' - 52 = (e - 52) + 1" using e'1 by arith
    then have "(2::rat) powi (e' - 52) = 2 powi ((e - 52) + 1)" by (rule arg_cong)
    also have "\<dots> = u * 2" unfolding u_def by (subst power_int_add) simp_all
    finally have u': "(2::rat) powi (e' - 52) = u * 2" .
    have half: "r / 2 powi (e' - 52) = of_int m / 2" using upos by (simp add: u' rm)
    have "m = 2 * 2 ^ 52 \<or> m = 2 * (- (2 ^ 52))" using mabs by (simp add: abs_if split: if_splits)
    then obtain k where "m = 2 * k" by blast
    then have "r / 2 powi (e' - 52) = of_int k" using half by simp
    then show ?thesis by blast
  qed
  then obtain k where "r / 2 powi (max (ilog2 \<bar>r\<bar>) (- 1022) - 52) = of_int k"
    unfolding e'_def by blast
  with r0 fin show ?thesis by (rule round64_representable)
qed

lemma round64_0 [simp]: "round64 0 = Finite 0"
  by (simp add: round64_def)

lemma fadd_zero_left: "fadd (Finite 0) (round64 x) = round64 x"
proof (cases "round64 x")
  case (Finite r)
  then show ?thesis using round64_idem[OF Finite] by simp
qed simp_all

lemma fadd_zero_right: "fadd (round64 x) (Finite 0) = round64 x"
proof (cases "round64 x")
  case (Finite r)
  then show ?thesis using round64_idem[OF Finite] by simp
qed simp_all

lemma round64_near:
  assumes "2 powi e \<le> \<bar>x\<bar>" and "\<bar>x\<bar> < 2 powi (e + 1)" and "- 1022 \<le> e"
    and "\<bar>x / 2 powi (e - 52) - of_int m\<bar> < 1 / 2"
    and "\<bar>of_int m * 2 powi (e - 52)\<bar> < (2::rat) ^ 1024"
  shows "round64 x = Finite (of_int m * 2 powi (e - 52))"
  using assms(1-3) round_half_even_near[OF assms(4)] assms(5) by (rule round64_at)

lemma lit_half: "float_literal (5 / 10) = Finite (1 / 2)"
proof -
  have "round64 (5 / 10) = Finite (of_int 4503599627370496 * 2 powi (- 1 - 52))"
    by (rule round64_near) (simp_all add: power_int_minus)
  then show ?thesis by (simp add: float_literal_def power_int_minus)
qed

lemma lit_03: "float_literal (3 / 10) = Finite (5404319552844595 / 18014398509481984)"
proof -
  have "round64 (3 / 10) = Finite (of_int 5404319552844595 * 2 powi (- 2 - 52))"
    by (rule round64_near) (simp_all add: power_int_minus)
  then show ?thesis by (simp add: float_literal_def power_int_minus)
qed

lemma lit_08: "float_literal (8 / 10) = Finite (3602879701896397 / 4503599627370496)"
proof -
  have "round64 (8 / 10) = Finite (of_int 7205759403792794 * 2 powi (- 1 - 52))"
    by (rule round64_near) (simp_all add: power_int_minus)
  then show ?thesis by (simp add: float_literal_def power_int_minus)
qed

lemma lit_064: "float_literal (64 / 100) = Finite (5764607523034235 / 9007199254740992)"
proof -
  have "round64 (64 / 100) = Finite (of_int 5764607523034235 * 2 powi (- 1 - 52))"
    by (rule round64_near) (simp_all add: power_int_minus)
  then show ?thesis by (simp add: float_literal_def power_int_minus)
qed

lemma lit_064_up:
  "float_literal (6400000000000001 / 10000000000000000) = Finite (1441151880758559 / 2251799813685248)"
proof -
  have "round64 (6400000000000001 / 10000000000000000) =
      Finite (of_int 5764607523034236 * 2 powi (- 1 - 52))"
    by (rule round64_near) (simp_all add: power_int_minus)
  then show ?thesis by (simp add: float_literal_def power_int_minus)
qed

lemma lit_half_n: "float_literal (1 / 2) = Finite (1 / 2)"
  using lit_half by simp

lemma lit_08_n: "float_literal (4 / 5) = Finite (3602879701896397 / 4503599627370496)"
  using lit_08 by simp

lemma float_of_nat_0: "float_of_nat 0 = Finite 0"
  by (simp add: float_of_nat_def)

lemma round64_1: "round64 1 = Finite 1"
proof -
  have "round64 1 = Finite (of_int 4503599627370496 * 2 powi (0 - 52))"
  proof (rule round64_near)
    show "2 powi 0 \<le> \<bar>1::rat\<bar>" by simp
    show "\<bar>1::rat\<bar> < 2 powi (0 + 1)" by simp
    show "- 1022 \<le> (0::int)" by simp
    show "\<bar>1 / 2 powi (0 - 52) - rat_of_int 4503599627370496\<bar> < 1 / 2"
      by (simp add: power_int_minus)
    show "\<bar>rat_of_int 4503599627370496 * 2 powi (0 - 52)\<bar> < 2 ^ 1024"
      by (simp add: power_int_minus)
  qed
  then show ?thesis by (simp add: power_int_minus)
qed

lemma float_of_nat_1: "float_of_nat (Suc 0) = Finite 1"
  by (simp add: float_of_nat_def round64_1)

lemma round64_half: "round64 (1 / 2) = Finite (1 / 2)"
  using lit_half by (simp add: float_literal_def)

lemma round_half_even_tie_up:
  assumes "x = of_int m - 1 / 2" and "even m"
  shows "round_half_even x = m"
proof -
  have "of_int (m - 1) \<le> x" and "x < of_int (m - 1) + 1" using assms(1) by simp_all
  then have f: "\<lfloor>x\<rfloor> = m - 1" by (simp only: floor_unique)
  have "x - of_int (m - 1) = 1 / 2" using assms(1) by simp
  then show ?thesis using f assms(2) by (simp add: round_half_even_def Let_def)
qed

lemma sum_05_03:
  "round64 (1 / 2 + 5404319552844595 / 18014398509481984) = Finite (3602879701896397 / 4503599627370496)"
proof -
  have "round64 (1 / 2 + 5404319552844595 / 18014398509481984) =
      Finite (of_int 7205759403792794 * 2 powi (- 1 - 52))"
  proof (rule round64_at)
    show "round_half_even ((1 / 2 + 5404319552844595 / 18014398509481984) / 2 powi (- 1 - 52)) =
        7205759403792794"
      by (rule round_half_even_tie_up) (simp_all add: power_int_minus)
  qed (simp_all add: power_int_minus)
  then show ?thesis by (simp add: power_int_minus)
qed

lemma sum_05_03_n:
  "round64 (14411518807585587 / 18014398509481984) = Finite (3602879701896397 / 4503599627370496)"
  using sum_05_03 by simp

lemma prod_08_08:
  "round64 (3602879701896397 / 4503599627370496 * (3602879701896397 / 4503599627370496)) =
     Finite (1441151880758559 / 2251799813685248)"
proof -
  have "round64 (3602879701896397 / 4503599627370496 * (3602879701896397 / 4503599627370496)) =
      Finite (of_int 5764607523034236 * 2 powi (- 1 - 52))"
    by (rule round64_near) (simp_all add: power_int_minus)
  then show ?thesis by (simp add: power_int_minus)
qed

lemma prod_08_08_n:
  "round64 (12980742146337070512478121581609 / 20282409603651670423947251286016) =
     Finite (1441151880758559 / 2251799813685248)"
  using prod_08_08 by simp

section \<open>Properties of ContentMatcher\<close>

lemma flt_irrefl [simp]: "\<not> flt a a"
  by (cases a) simp_all

lemma flt_trans: "flt a b \<Longrightarrow> flt b c \<Longrightarrow> flt a c"
  by (cases a; cases b; cases c) simp_all

lemma flt_total: "a \<noteq> NaN \<Longrightarrow> b \<noteq> NaN \<Longrightarrow> flt a b \<or> a = b \<or> flt b a"
  by (cases a; cases b) auto

lemma flt_not_NaN: "flt a b \<Longrightarrow> a \<noteq> NaN \<and> b \<noteq> NaN"
  by (cases a; cases b) simp_all

lemma fge_trans: "fge a b \<Longrightarrow> fge b c \<Longrightarrow> fge a c"
  unfolding fge_def using flt_trans by blast

lemma not_flt_fge: "a \<noteq> NaN \<Longrightarrow> b \<noteq> NaN \<Longrightarrow> \<not> flt a b \<Longrightarrow> fge a b"
  unfolding fge_def using flt_total by blast

lemma flt_fge: "flt a b \<Longrightarrow> fge b a"
  unfolding fge_def using flt_not_NaN by blast

lemma match_loop_eq: "match_loop prefs segs matches = matches @ positive_matches prefs segs"
  by (induction segs arbitrary: matches) (simp_all add: positive_matches_def Let_def)

lemma set_insort_desc: "set (insort_desc x ys) = insert x (set ys)"
  by (induction ys) auto

lemma mset_insort_desc: "mset (insort_desc x ys) = add_mset x (mset ys)"
  by (induction ys) auto

lemma mset_sorted_desc: "mset (sorted_desc xs) = mset xs"
  by (induction xs) (simp_all add: sorted_desc_def mset_insort_desc)

lemma set_sorted_desc: "set (sorted_desc xs) = set xs"
  using mset_sorted_desc[of xs] by (metis set_mset_mset)

lemma filter_insort_desc:
  "filter (\<lambda>y. snd y = k) (insort_desc x ys) =
     (if snd x = k then x # filter (\<lambda>y. snd y = k) ys else filter (\<lambda>y. snd y = k) ys)"
proof (induction ys)
  case Nil
  show ?case by simp
next
  case (Cons y ys)
  show ?case
  proof (cases "flt (snd x) (snd y)")
    case True
    then have "snd x \<noteq> snd y" by auto
    with True Cons show ?thesis by auto
  next
    case False
    then show ?thesis by simp
  qed
qed

lemma filter_sorted_desc:
  "filter (\<lambda>y. snd y = k) (sorted_desc xs) = filter (\<lambda>y. snd y = k) xs"
proof (induction xs)
  case Nil
  show ?case by (simp add: sorted_desc_def)
next
  case (Cons x xs)
  have "sorted_desc (x # xs) = insort_desc x (sorted_desc xs)" by (simp add: sorted_desc_def)
  then show ?case using Cons by (simp add: filter_insort_desc)
qed

lemma sorted_insort_desc:
  assumes "sorted_wrt (\<lambda>a b. fge (snd a) (snd b)) ys"
    and "snd x \<noteq> NaN" and "\<forall>y\<in>set ys. snd y \<noteq> NaN"
  shows "sorted_wrt (\<lambda>a b. fge (snd a) (snd b)) (insort_desc x ys)"
  using assms
proof (induction ys)
  case Nil
  show ?case by simp
next
  case (Cons y ys)
  show ?case
  proof (cases "flt (snd x) (snd y)")
    case True
    have "sorted_wrt (\<lambda>a b. fge (snd a) (snd b)) (insort_desc x ys)"
      using Cons by simp
    moreover have "\<forall>z\<in>set (insort_desc x ys). fge (snd y) (snd z)"
      using Cons.prems(1) True by (auto simp: set_insort_desc flt_fge)
    ultimately show ?thesis using True by simp
  next
    case False
    have xy: "fge (snd x) (snd y)" using False Cons.prems by (simp add: not_flt_fge)
    have "\<forall>z\<in>set ys. fge (snd x) (snd z)"
      using Cons.prems(1) xy by (auto intro: fge_trans)
    then show ?thesis using False xy Cons.prems(1) by simp
  qed
qed

lemma sorted_sorted_desc:
  assumes "\<forall>y\<in>set xs. snd y \<noteq> NaN"
  shows "sorted_wrt (\<lambda>a b. fge (snd a) (snd b)) (sorted_desc xs)"
  using assms
proof (induction xs)
  case Nil
  show ?case by (simp add: sorted_desc_def)
next
  case (Cons x xs)
  have "sorted_desc (x # xs) = insort_desc x (sorted_desc xs)" by (simp add: sorted_desc_def)
  moreover have "sorted_wrt (\<lambda>a b. fge (snd a) (snd b)) (insort_desc x (sorted_desc xs))"
    using Cons by (intro sorted_insort_desc) (simp_all add: set_sorted_desc)
  ultimately show ?case by simp
qed

lemma fgt_not_NaN: "fgt a b \<Longrightarrow> a \<noteq> NaN"
  unfolding fgt_def using flt_not_NaN by blast

lemma positive_matches_not_NaN: "\<forall>y\<in>set (positive_matches prefs segs). snd y \<noteq> NaN"
  by (auto simp: positive_matches_def dest: fgt_not_NaN)

lemma positive_matches_with_score:
  "map fst (filter (\<lambda>x. snd x = k) (positive_matches prefs segs)) =
     filter (\<lambda>s. segment_score prefs s = k \<and> fgt k (Finite 0)) segs"
  by (induction segs) (auto simp: positive_matches_def)

lemma match_content_eq: "match_content m prefs = sorted_desc (positive_matches prefs (segments m))"
  by (simp add: match_content_def match_loop_eq)

lemma example_score:
  "segment_score \<lparr>pref_topics = Some [''tech''], preferred_tone = Some ''positive''\<rparr>
     \<lparr>start_ms = a, end_ms = b, seg_text = t, topics = [''tech'', ''sports''],
      sentiment = ''positive'', confidence = float_literal (8 / 10)\<rparr>
   = Finite (1441151880758559 / 2251799813685248)"
proof -
  have c: "card (set [''tech'', ''sports''] \<inter> set [''tech'']) = 1" by simp
  show ?thesis
    by (simp add: segment_score_def Let_def c float_of_nat_1 lit_half_n lit_03 lit_08_n round64_half
        sum_05_03_n prod_08_08_n)
qed

lemma fadd_zero_fmul_half:
  "fadd (Finite 0) (fmul a (Finite (1 / 2))) = fmul a (Finite (1 / 2))"
  by (cases a) (simp_all add: fadd_zero_left)

lemma fadd_fmul_half_zero:
  "fadd (fmul a (Finite (1 / 2))) (Finite 0) = fmul a (Finite (1 / 2))"
  by (cases a) (simp_all add: fadd_zero_right)

lemma segment_score_formula:
  "segment_score \<lparr>pref_topics = Some T, preferred_tone = Some P\<rparr> s =
     fmul (fadd (fmul (float_of_nat (card (set (topics s) \<inter> set T))) (float_literal (5 / 10)))
                (if sentiment s = P then float_literal (3 / 10) else Finite 0))
          (confidence s)"
  by (simp add: segment_score_def Let_def lit_half_n fadd_zero_fmul_half fadd_fmul_half_zero)

lemma not_pos_fmul_zero_right: "\<not> flt (Finite 0) (fmul a (Finite 0))"
  by (cases a) simp_all

lemma not_pos_fmul_zero_left: "\<not> flt (Finite 0) (fmul (Finite 0) c)"
  by (cases c) simp_all

lemma score_confidence_zero:
  assumes "confidence s = Finite 0"
  shows "\<not> fgt (segment_score prefs s) (Finite 0)"
  using assms by (simp add: segment_score_def Let_def fgt_def not_pos_fmul_zero_right)

lemma score_no_match:
  assumes "set (topics s) \<inter> set (case pref_topics prefs of None \<Rightarrow> [] | Some ts \<Rightarrow> ts) = {}"
    and "preferred_tone prefs \<noteq> Some (sentiment s)"
  shows "\<not> fgt (segment_score prefs s) (Finite 0)"
proof -
  have "segment_score prefs s = fmul (Finite 0) (confidence s)"
    using assms by (auto simp: segment_score_def Let_def float_of_nat_0 lit_half_n)
  then show ?thesis by (simp add: fgt_def not_pos_fmul_zero_left)
qed

lemma fst_set_positive_matches:
  "fst ` set (positive_matches prefs segs) = {s \<in> set segs. fgt (segment_score prefs s) (Finite 0)}"
  by (auto simp: positive_matches_def image_iff)

lemma map_fst_positive_matches:
  "map fst (positive_matches prefs segs) = filter (\<lambda>s. fgt (segment_score prefs s) (Finite 0)) segs"
  by (induction segs) (simp_all add: positive_matches_def)

text \<open>
  C1 (as amended): for preferences \<open>{topics: T, preferred_tone: P}\<close> the score of a segment
  is \<open>(|set(topics) \<inter> set(T)| * 0.5 + (0.3 if sentiment == P else 0)) * confidence\<close>, every
  operation being the binary64 operation of Python; the segment of the example (topics
  tech and sports, sentiment positive, confidence 0.8, against topics tech and tone
  positive) gets the double \<open>0.6400000000000001\<close>, which is \<open>1441151880758559 / 2 ^ 51\<close>.
\<close>

theorem segment_score_value:
  "segment_score \<lparr>pref_topics = Some T, preferred_tone = Some P\<rparr> s =
     fmul (fadd (fmul (float_of_nat (card (set (topics s) \<inter> set T))) (float_literal (5 / 10)))
                (if sentiment s = P then float_literal (3 / 10) else Finite 0))
          (confidence s)
   \<and> segment_score \<lparr>pref_topics = Some [''tech''], preferred_tone = Some ''positive''\<rparr>
       \<lparr>start_ms = a, end_ms = b, seg_text = t, topics = [''tech'', ''sports''],
        sentiment = ''positive'', confidence = float_literal (8 / 10)\<rparr>
     = float_literal (6400000000000001 / 10000000000000000)
   \<and> float_literal (6400000000000001 / 10000000000000000) =
       Finite (1441151880758559 / 2251799813685248)"
proof (intro conjI)
  show "segment_score \<lparr>pref_topics = Some T, preferred_tone = Some P\<rparr> s =
     fmul (fadd (fmul (float_of_nat (card (set (topics s) \<inter> set T))) (float_literal (5 / 10)))
                (if sentiment s = P then float_literal (3 / 10) else Finite 0))
          (confidence s)"
    by (rule segment_score_formula)
  show "segment_score \<lparr>pref_topics = Some [''tech''], preferred_tone = Some ''positive''\<rparr>
       \<lparr>start_ms = a, end_ms = b, seg_text = t, topics = [''tech'', ''sports''],
        sentiment = ''positive'', confidence = float_literal (8 / 10)\<rparr>
     = float_literal (6400000000000001 / 10000000000000000)"
    unfolding example_score lit_064_up by (rule refl)
  show "float_literal (6400000000000001 / 10000000000000000) =
       Finite (1441151880758559 / 2251799813685248)"
    by (rule lit_064_up)
qed

text \<open>
  C1 as stated fails: the score of the example segment is not the double \<open>0.64\<close>. The sum
  \<open>0.5 + 0.3\<close> is the double \<open>0.8\<close>, and the product of that double with itself rounds to
  the double above \<open>0.64\<close>.
\<close>

theorem example_score_not_064:
  "segment_score example_preferences example_segment \<noteq> float_literal (64 / 100)"
  unfolding example_preferences_def example_segment_def example_score lit_064 by simp

text \<open>
  C2: a segment is in the output of \<open>match_content\<close> exactly when it is in the working set
  and its score is above zero, and the output holds the pairs of such a segment and its
  score, each as often as the segment was added. So a segment of confidence 0 is left out
  whatever its topics and tone, and so is a segment that shares no topic with the
  preferences and has another tone.
\<close>

theorem match_content_positive_only:
  "(s \<in> fst ` set (match_content m prefs) \<longleftrightarrow>
      s \<in> set (segments m) \<and> fgt (segment_score prefs s) (Finite 0))
   \<and> mset (match_content m prefs) = mset (positive_matches prefs (segments m))
   \<and> (confidence s = Finite 0 \<longrightarrow> s \<notin> fst ` set (match_content m prefs))
   \<and> (set (topics s) \<inter> set (case pref_topics prefs of None \<Rightarrow> [] | Some ts \<Rightarrow> ts) = {}
        \<and> preferred_tone prefs \<noteq> Some (sentiment s)
      \<longrightarrow> s \<notin> fst ` set (match_content m prefs))"
proof -
  have a: "s \<in> fst ` set (match_content m prefs) \<longleftrightarrow>
      s \<in> set (segments m) \<and> fgt (segment_score prefs s) (Finite 0)" for s
    unfolding match_content_eq set_sorted_desc fst_set_positive_matches by simp
  have b: "mset (match_content m prefs) = mset (positive_matches prefs (segments m))"
    unfolding match_content_eq by (rule mset_sorted_desc)
  show ?thesis using a b score_confidence_zero[of s prefs] score_no_match[of s prefs] by blast
qed

theorem match_content_positive_only_witness:
  "confidence zero_confidence_segment = Finite 0
   \<and> zero_confidence_segment \<notin>
       fst ` set (match_content \<lparr>segments = [zero_confidence_segment, unrelated_segment]\<rparr>
         example_preferences)
   \<and> set (topics unrelated_segment) \<inter>
       set (case pref_topics example_preferences of None \<Rightarrow> [] | Some ts \<Rightarrow> ts) = {}
   \<and> preferred_tone example_preferences \<noteq> Some (sentiment unrelated_segment)
   \<and> unrelated_segment \<notin>
       fst ` set (match_content \<lparr>segments = [zero_confidence_segment, unrelated_segment]\<rparr>
         example_preferences)"
proof -
  let ?m = "\<lparr>segments = [zero_confidence_segment, unrelated_segment]\<rparr>"
  have h0: "confidence zero_confidence_segment = Finite 0"
    by (simp add: zero_confidence_segment_def)
  have h1: "set (topics unrelated_segment) \<inter>
      set (case pref_topics example_preferences of None \<Rightarrow> [] | Some ts \<Rightarrow> ts) = {}"
    by (simp add: unrelated_segment_def example_preferences_def)
  have h2: "preferred_tone example_preferences \<noteq> Some (sentiment unrelated_segment)"
    by (simp add: unrelated_segment_def example_preferences_def)
  have c0: "zero_confidence_segment \<notin> fst ` set (match_content ?m example_preferences)"
    using match_content_positive_only [of zero_confidence_segment ?m example_preferences] h0
    by blast
  have c1: "unrelated_segment \<notin> fst ` set (match_content ?m example_preferences)"
    using match_content_positive_only [of unrelated_segment ?m example_preferences] h1 h2
    by blast
  show ?thesis using h0 h1 h2 c0 c1 by blast
qed

text \<open>
  C3: the list \<open>match_content\<close> returns is in descending order of score, and for every
  score \<open>k\<close> the segments returned with that score are the segments of the working set
  with that score, in the order in which they were inserted.
\<close>

theorem match_content_sorted_stable:
  "sorted_wrt (\<lambda>a b. fge (snd a) (snd b)) (match_content m prefs) \<and>
   (\<forall>k. map fst (filter (\<lambda>x. snd x = k) (match_content m prefs)) =
         filter (\<lambda>s. segment_score prefs s = k \<and> fgt k (Finite 0)) (segments m))"
proof -
  have a: "sorted_wrt (\<lambda>a b. fge (snd a) (snd b)) (match_content m prefs)"
    unfolding match_content_eq by (rule sorted_sorted_desc) (rule positive_matches_not_NaN)
  have b: "map fst (filter (\<lambda>x. snd x = k) (match_content m prefs)) =
        filter (\<lambda>s. segment_score prefs s = k \<and> fgt k (Finite 0)) (segments m)" for k
    unfolding match_content_eq filter_sorted_desc by (rule positive_matches_with_score)
  show ?thesis using a b by blast
qed

text \<open>
  C9: \<open>add_segments(A)\<close> then \<open>add_segments(B)\<close> leaves the working set extended by
  \<open>A @ B\<close>, nothing dropped and nothing merged, which is what one \<open>add_segments(A @ B)\<close>
  does; on a fresh matcher the working set is \<open>A @ B\<close>, and \<open>match_content\<close> then returns
  every segment of both batches whose score is above zero, as often as it was added.
\<close>

theorem add_segments_twice:
  "segments (add_segments (add_segments m A) B) = segments m @ A @ B
   \<and> length (segments (add_segments (add_segments m A) B)) =
       length (segments m) + length A + length B
   \<and> add_segments (add_segments m A) B = add_segments m (A @ B)
   \<and> segments (add_segments (add_segments init_matcher A) B) = A @ B
   \<and> match_content (add_segments (add_segments m A) B) prefs =
       match_content (add_segments m (A @ B)) prefs
   \<and> mset (map fst (match_content (add_segments (add_segments init_matcher A) B) prefs)) =
       mset (filter (\<lambda>s. fgt (segment_score prefs s) (Finite 0)) (A @ B))"
proof -
  have e: "add_segments (add_segments m A) B = add_segments m (A @ B)" for m
    by (simp add: add_segments_def)
  have s: "segments (add_segments init_matcher (A @ B)) = A @ B"
    by (simp add: add_segments_def init_matcher_def)
  have "mset (map fst (match_content (add_segments init_matcher (A @ B)) prefs)) =
      mset (map fst (positive_matches prefs (A @ B)))"
    unfolding match_content_eq s by (simp add: mset_sorted_desc)
  also have "map fst (positive_matches prefs (A @ B)) =
      filter (\<lambda>s. fgt (segment_score prefs s) (Finite 0)) (A @ B)"
    by (induction "A @ B" arbitrary: A B) (auto simp: positive_matches_def filter_map o_def)
  finally show ?thesis using e s by (simp add: add_segments_def)
qed

section \<open>Properties of AudioAnalyzer\<close>

lemma poll_completed:
  "status (rs i) = Some ''completed'' \<Longrightarrow>
   poll rs tid i tr = Some (tr @ [Http (GetTranscript tid)], Inr (rs i))"
  by (subst poll.simps) (simp add: Let_def)

lemma poll_error:
  "status (rs i) = Some ''error'' \<Longrightarrow>
   poll rs tid i tr = Some (tr @ [Http (GetTranscript tid)],
     Inl (RuntimeError (''Transcription failed: '' @
       (case error (rs i) of None \<Rightarrow> ''Unknown error'' | Some e \<Rightarrow> e))))"
  by (subst poll.simps) (simp add: Let_def)

lemma poll_pending:
  "pending (rs i) \<Longrightarrow>
   poll rs tid i tr = poll rs tid (Suc i) (tr @ [Http (GetTranscript tid), Sleep 30])"
  by (subst poll.simps) (simp add: Let_def pending_def)


lemma poll_Some_terminal:
  "poll rs tid i tr = Some r \<Longrightarrow> \<exists>j\<ge>i. \<not> pending (rs j)"
  apply (rule poll.raw_induct[rotated, where P = "\<lambda>rs tid i tr r. \<exists>j\<ge>i. \<not> pending (rs j)"])
   apply assumption
  subgoal premises prems for p rs' tid' i' tr' r'
  proof (cases "pending (rs' i')")
    case True
    with prems(3) have "p rs' tid' (Suc i') ((tr' @ [Http (GetTranscript tid')]) @ [Sleep 30]) = Some r'"
      by (simp add: Let_def pending_def)
    from prems(2)[OF this] obtain j where "j \<ge> Suc i'" "\<not> pending (rs' j)" by blast
    then show ?thesis by (intro exI[of _ j]) simp
  next
    case False
    then show ?thesis by blast
  qed
  done

lemma poll_forever:
  assumes "\<forall>j\<ge>i. pending (rs j)"
  shows "poll rs tid i tr = None"
proof (cases "poll rs tid i tr")
  case None
  then show ?thesis .
next
  case (Some r)
  from poll_Some_terminal[OF Some] assms show ?thesis by blast
qed

lemma poll_skip_pending:
  assumes "\<forall>j<n. pending (rs (i + j))"
  shows "poll rs tid i tr = poll rs tid (i + n) (tr @ retries tid n)"
  using assms
proof (induction n arbitrary: i tr)
  case 0
  show ?case by (simp add: retries_def)
next
  case (Suc n)
  have p: "pending (rs i)" using Suc.prems by (metis add.right_neutral zero_less_Suc)
  have "\<forall>j<n. pending (rs (Suc i + j))" using Suc.prems by (metis Suc_less_eq add_Suc_shift)
  then have "poll rs tid (Suc i) (tr @ [Http (GetTranscript tid), Sleep 30]) =
      poll rs tid (Suc i + n) ((tr @ [Http (GetTranscript tid), Sleep 30]) @ retries tid n)"
    by (rule Suc.IH)
  then show ?case using poll_pending[of rs i tid tr, OF p] by (simp add: retries_def)
qed

lemma lit_1: "float_literal 1 = Finite 1"
  by (simp add: float_literal_def round64_1)

lemma chapter_loop_maps:
  assumes "\<forall>c\<in>set cs. ch_start c \<noteq> None \<and> ch_end c \<noteq> None"
  shows "\<exists>out. chapter_loop cs segs = Inr (segs @ out) \<and> list_all2 chapter_maps_to cs out"
  using assms
proof (induction cs arbitrary: segs)
  case Nil
  show ?case by simp
next
  case (Cons c cs)
  from Cons.prems obtain s e where se: "ch_start c = Some s" "ch_end c = Some e" by auto
  define g where "g = \<lparr>start_ms = s, end_ms = e,
      seg_text = (case ch_summary c of None \<Rightarrow> [] | Some t \<Rightarrow> t),
      topics = (case ch_topics c of None \<Rightarrow> [] | Some ts \<Rightarrow> ts),
      sentiment = (case ch_sentiment c of None \<Rightarrow> ''neutral'' | Some v \<Rightarrow> v),
      confidence = (case ch_confidence c of None \<Rightarrow> float_literal 1 | Some c \<Rightarrow> c)\<rparr>"
  have m: "chapter_maps_to c g"
    by (simp add: chapter_maps_to_def g_def se lit_1 split: option.splits)
  have step: "chapter_loop (c # cs) segs = chapter_loop cs (segs @ [g])"
    by (simp add: se g_def)
  from Cons.IH[of "segs @ [g]"] Cons.prems obtain out where
    "chapter_loop cs (segs @ [g]) = Inr ((segs @ [g]) @ out)" "list_all2 chapter_maps_to cs out"
    by auto
  with step m show ?case by (intro exI[of _ "g # out"]) simp
qed

lemma chapter_loop_missing:
  assumes "\<exists>c\<in>set cs. ch_start c = None \<or> ch_end c = None"
  shows "chapter_loop cs segs = Inl (KeyError ''start'') \<or> chapter_loop cs segs = Inl (KeyError ''end'')"
  using assms
proof (induction cs arbitrary: segs)
  case Nil
  then show ?case by simp
next
  case (Cons c cs)
  show ?case
  proof (cases "ch_start c")
    case None
    then show ?thesis by simp
  next
    case (Some s)
    show ?thesis
    proof (cases "ch_end c")
      case None
      with Some show ?thesis by simp
    next
      case (Some e)
      with \<open>ch_start c = Some s\<close> Cons.prems
      have "\<exists>c\<in>set cs. ch_start c = None \<or> ch_end c = None" by auto
      from Cons.IH[OF this] Some \<open>ch_start c = Some s\<close> show ?thesis by simp
    qed
  qed
qed

lemma process_results_empty:
  "chapters t = None \<or> chapters t = Some [] \<Longrightarrow> process_results t = Inr []"
  by (auto simp: process_results_def)

lemma process_results_maps:
  assumes "chapters t = Some cs" and "\<forall>c\<in>set cs. ch_start c \<noteq> None \<and> ch_end c \<noteq> None"
  shows "\<exists>out. process_results t = Inr out \<and> list_all2 chapter_maps_to cs out"
  using chapter_loop_maps[OF assms(2), of "[]"] assms(1)
  by (cases cs) (auto simp: process_results_def)

lemma process_results_missing:
  assumes "chapters t = Some cs" and "\<exists>c\<in>set cs. ch_start c = None \<or> ch_end c = None"
  shows "process_results t = Inl (KeyError ''start'') \<or> process_results t = Inl (KeyError ''end'')"
proof -
  have "cs \<noteq> []" using assms(2) by auto
  then show ?thesis using chapter_loop_missing[OF assms(2), of "[]"] assms(1)
    by (simp add: process_results_def)
qed

lemma analyze_audio_completed:
  assumes "start_transcription w p u = (tr, Inr tid)"
    and "\<forall>j<n. pending (poll_responses w j)"
    and "status (poll_responses w n) = Some ''completed''"
  shows "analyze_audio w p u =
    Some (tr @ retries tid n @ [Http (GetTranscript tid)], process_results (poll_responses w n))"
proof -
  have "poll (poll_responses w) tid 0 tr = poll (poll_responses w) tid (0 + n) (tr @ retries tid n)"
    by (rule poll_skip_pending) (simp add: assms(2))
  also have "\<dots> = Some ((tr @ retries tid n) @ [Http (GetTranscript tid)], Inr (poll_responses w n))"
    using assms(3) by (simp add: poll_completed)
  finally show ?thesis using assms(1) by (simp add: analyze_audio_def)
qed

lemma analyze_audio_error:
  assumes "start_transcription w p u = (tr, Inr tid)"
    and "\<forall>j<n. pending (poll_responses w j)"
    and "status (poll_responses w n) = Some ''error''"
  shows "analyze_audio w p u =
    Some (tr @ retries tid n @ [Http (GetTranscript tid)],
      Inl (RuntimeError (''Transcription failed: '' @
        (case error (poll_responses w n) of None \<Rightarrow> ''Unknown error'' | Some e \<Rightarrow> e))))"
proof -
  have "poll (poll_responses w) tid 0 tr = poll (poll_responses w) tid (0 + n) (tr @ retries tid n)"
    by (rule poll_skip_pending) (simp add: assms(2))
  also have "\<dots> = Some ((tr @ retries tid n) @ [Http (GetTranscript tid)],
      Inl (RuntimeError (''Transcription failed: '' @
        (case error (poll_responses w n) of None \<Rightarrow> ''Unknown error'' | Some e \<Rightarrow> e))))"
    using assms(3) by (simp add: poll_error)
  finally show ?thesis using assms(1) by (simp add: analyze_audio_def)
qed

lemma analyze_audio_forever:
  assumes "start_transcription w p u = (tr, Inr tid)"
    and "\<forall>j. pending (poll_responses w j)"
  shows "analyze_audio w p u = None"
proof -
  have "poll (poll_responses w) tid 0 tr = None"
    by (rule poll_forever) (simp add: assms(2))
  then show ?thesis using assms(1) by (simp add: analyze_audio_def)
qed

lemma read_file_small:
  assumes "f \<noteq> []" and "length f \<le> 5242880"
  shows "read_file f = [f]"
proof -
  have "read_file [] = []" by (subst read_file.simps) simp
  then show ?thesis using assms by (subst read_file.simps) (simp add: Let_def)
qed

lemma example_start:
  "start_transcription example_world ''talk.mp3'' False =
     ([Http (PostUpload [''RIFF'']), Http (PostTranscript ''https://cdn/u1'')], Inr ''job1'')"
proof -
  have "read_file ''RIFF'' = [''RIFF'']" by (rule read_file_small) simp_all
  then show ?thesis
    by (simp add: start_transcription_def upload_file_def example_world_def Let_def)
qed

text \<open>
  C4: when the job completes (after any number of pending polls) with chapters that all
  have \<open>start\<close> and \<open>end\<close>, \<open>analyze_audio\<close> returns one segment for each chapter, in
  order: \<open>start\<close> and \<open>end\<close> are copied to \<open>start_ms\<close> and \<open>end_ms\<close>, \<open>summary\<close> to
  \<open>text\<close>, and \<open>summary\<close>, \<open>topics\<close>, \<open>sentiment\<close> and \<open>confidence\<close> are copied when
  present and are \<open>""\<close>, the empty list, \<open>"neutral"\<close> and \<open>1.0\<close> when absent.
\<close>

theorem analyze_audio_chapter_defaults:
  assumes "start_transcription w p u = (tr, Inr tid)"
    and "\<forall>j<n. pending (poll_responses w j)"
    and "status (poll_responses w n) = Some ''completed''"
    and "chapters (poll_responses w n) = Some cs"
    and "\<forall>c\<in>set cs. ch_start c \<noteq> None \<and> ch_end c \<noteq> None"
  shows "\<exists>out. analyze_audio w p u =
           Some (tr @ retries tid n @ [Http (GetTranscript tid)], Inr out)
         \<and> list_all2 chapter_maps_to cs out"
  using analyze_audio_completed[OF assms(1-3)] process_results_maps[OF assms(4,5)] by auto

lemma example_pending: "\<forall>j<2. pending (poll_responses example_world j)"
  by (simp add: example_world_def pending_def)

lemma example_completed: "status (poll_responses example_world 2) = Some ''completed''"
  by (simp add: example_world_def)

lemma example_chapters:
  "chapters (poll_responses example_world 2) = Some [full_chapter, bare_chapter]"
  by (simp add: example_world_def)

theorem analyze_audio_chapter_defaults_witness:
  "\<exists>out. analyze_audio example_world ''talk.mp3'' False =
           Some ([Http (PostUpload [''RIFF'']), Http (PostTranscript ''https://cdn/u1'')] @
                 retries ''job1'' 2 @ [Http (GetTranscript ''job1'')], Inr out)
         \<and> list_all2 chapter_maps_to [full_chapter, bare_chapter] out"
proof -
  have h: "\<forall>c\<in>set [full_chapter, bare_chapter]. ch_start c \<noteq> None \<and> ch_end c \<noteq> None"
    by (simp add: full_chapter_def bare_chapter_def)
  show ?thesis
    by (rule analyze_audio_chapter_defaults
        [OF example_start example_pending example_completed example_chapters h])
qed

lemma example_analysis:
  "analyze_audio example_world ''talk.mp3'' False =
     Some ([Http (PostUpload [''RIFF'']), Http (PostTranscript ''https://cdn/u1''),
            Http (GetTranscript ''job1''), Sleep 30, Http (GetTranscript ''job1''), Sleep 30,
            Http (GetTranscript ''job1'')],
           Inr [\<lparr>start_ms = 0, end_ms = 1000, seg_text = ''Intro'', topics = [''tech''],
                  sentiment = ''positive'', confidence = Finite (1 / 2)\<rparr>,
                \<lparr>start_ms = 1000, end_ms = 2000, seg_text = [], topics = [],
                  sentiment = ''neutral'', confidence = Finite 1\<rparr>])"
proof -
  have "process_results (poll_responses example_world 2) =
      Inr [\<lparr>start_ms = 0, end_ms = 1000, seg_text = ''Intro'', topics = [''tech''],
                  sentiment = ''positive'', confidence = Finite (1 / 2)\<rparr>,
                \<lparr>start_ms = 1000, end_ms = 2000, seg_text = [], topics = [],
                  sentiment = ''neutral'', confidence = Finite 1\<rparr>]"
    by (simp add: process_results_def example_world_def full_chapter_def bare_chapter_def lit_1)
  then show ?thesis
    using analyze_audio_completed[OF example_start example_pending example_completed]
    by (simp add: retries_def numeral_2_eq_2)
qed

lemma upload_file_polls: "upload_file (w\<lparr>poll_responses := r\<rparr>) p = upload_file w p"
  by (simp add: upload_file_def split: option.splits)

lemma start_transcription_polls:
  "start_transcription (w\<lparr>poll_responses := r\<rparr>) p u = start_transcription w p u"
  by (cases u) (simp_all add: start_transcription_def upload_file_polls)

text \<open>
  C5: when the job completes and the response has no \<open>chapters\<close> key or an empty list
  there, \<open>analyze_audio\<close> returns the empty list of segments and raises nothing.
\<close>

theorem analyze_audio_no_chapters:
  assumes "start_transcription w p u = (tr, Inr tid)"
    and "\<forall>j<n. pending (poll_responses w j)"
    and "status (poll_responses w n) = Some ''completed''"
    and "chapters (poll_responses w n) = None \<or> chapters (poll_responses w n) = Some []"
  shows "analyze_audio w p u = Some (tr @ retries tid n @ [Http (GetTranscript tid)], Inr [])"
  using analyze_audio_completed[OF assms(1-3)] process_results_empty[OF assms(4)] by simp

theorem analyze_audio_no_chapters_witness:
  "analyze_audio chapterless_world ''talk.mp3'' False =
     Some ([Http (PostUpload [''RIFF'']), Http (PostTranscript ''https://cdn/u1''),
            Http (GetTranscript ''job1'')], Inr [])"
proof -
  have st: "start_transcription chapterless_world ''talk.mp3'' False =
      ([Http (PostUpload [''RIFF'']), Http (PostTranscript ''https://cdn/u1'')], Inr ''job1'')"
    unfolding chapterless_world_def start_transcription_polls by (rule example_start)
  have p: "\<forall>j<0. pending (poll_responses chapterless_world j)" by simp
  have c: "status (poll_responses chapterless_world 0) = Some ''completed''"
    by (simp add: chapterless_world_def)
  have e: "chapters (poll_responses chapterless_world 0) = None \<or>
      chapters (poll_responses chapterless_world 0) = Some []"
    by (simp add: chapterless_world_def)
  have "analyze_audio chapterless_world ''talk.mp3'' False =
     Some ([Http (PostUpload [''RIFF'']), Http (PostTranscript ''https://cdn/u1'')] @
           retries ''job1'' 0 @ [Http (GetTranscript ''job1'')], Inr [])"
    by (rule analyze_audio_no_chapters[OF st p c e])
  then show ?thesis by (simp add: retries_def)
qed

text \<open>
  C6: with \<open>is_url = False\<close> and a path that names no existing file, \<open>analyze_audio\<close>
  raises \<open>FileNotFoundError\<close> and has made no request and no sleep: the event list is
  empty.
\<close>

theorem analyze_audio_missing_file:
  assumes "files w audio_path = None"
  shows "analyze_audio w audio_path False =
    Some ([], Inl (FileNotFoundError (''Audio file not found: '' @ audio_path)))"
  using assms by (simp add: analyze_audio_def start_transcription_def)

theorem analyze_audio_missing_file_witness:
  "files example_world ''nothing.mp3'' = None
   \<and> analyze_audio example_world ''nothing.mp3'' False =
       Some ([], Inl (FileNotFoundError ''Audio file not found: nothing.mp3''))"
proof -
  have h: "files example_world ''nothing.mp3'' = None" by (simp add: example_world_def)
  show ?thesis using h analyze_audio_missing_file[OF h] by simp
qed

text \<open>
  C7: after any number \<open>n\<close> of polls that found the job pending (each followed by a sleep
  of 30 seconds), a status \<open>error\<close> makes \<open>analyze_audio\<close> raise \<open>RuntimeError\<close> with the
  service's error message, a status \<open>completed\<close> ends the polling and the result is that
  of processing the response, and any other status makes the loop sleep 30 seconds and
  poll again; no count of polls ends the loop, and when every poll finds the job pending
  \<open>analyze_audio\<close> never returns.
\<close>

theorem polling_outcomes:
  assumes "start_transcription w p u = (tr, Inr tid)"
    and "\<forall>j<n. pending (poll_responses w j)"
  shows "(status (poll_responses w n) = Some ''error'' \<longrightarrow>
            analyze_audio w p u =
              Some (tr @ retries tid n @ [Http (GetTranscript tid)],
                Inl (RuntimeError (''Transcription failed: '' @
                  (case error (poll_responses w n) of None \<Rightarrow> ''Unknown error'' | Some e \<Rightarrow> e)))))
       \<and> (status (poll_responses w n) = Some ''completed'' \<longrightarrow>
            analyze_audio w p u =
              Some (tr @ retries tid n @ [Http (GetTranscript tid)],
                process_results (poll_responses w n)))
       \<and> (pending (poll_responses w n) \<longrightarrow>
            poll (poll_responses w) tid 0 tr =
              poll (poll_responses w) tid (Suc n)
                (tr @ retries tid n @ [Http (GetTranscript tid), Sleep 30]))
       \<and> ((\<forall>j. pending (poll_responses w j)) \<longrightarrow> analyze_audio w p u = None)"
proof (intro conjI impI)
  assume "status (poll_responses w n) = Some ''error''"
  then show "analyze_audio w p u =
      Some (tr @ retries tid n @ [Http (GetTranscript tid)],
        Inl (RuntimeError (''Transcription failed: '' @
          (case error (poll_responses w n) of None \<Rightarrow> ''Unknown error'' | Some e \<Rightarrow> e))))"
    by (rule analyze_audio_error[OF assms])
next
  assume "status (poll_responses w n) = Some ''completed''"
  then show "analyze_audio w p u =
      Some (tr @ retries tid n @ [Http (GetTranscript tid)], process_results (poll_responses w n))"
    by (rule analyze_audio_completed[OF assms])
next
  assume pn: "pending (poll_responses w n)"
  have "poll (poll_responses w) tid 0 tr = poll (poll_responses w) tid (0 + n) (tr @ retries tid n)"
    by (rule poll_skip_pending) (simp add: assms(2))
  also have "\<dots> = poll (poll_responses w) tid (Suc n)
      ((tr @ retries tid n) @ [Http (GetTranscript tid), Sleep 30])"
    using poll_pending[of "poll_responses w" n tid "tr @ retries tid n", OF pn] by simp
  finally show "poll (poll_responses w) tid 0 tr =
      poll (poll_responses w) tid (Suc n)
        (tr @ retries tid n @ [Http (GetTranscript tid), Sleep 30])"
    by simp
next
  assume "\<forall>j. pending (poll_responses w j)"
  then show "analyze_audio w p u = None" by (rule analyze_audio_forever[OF assms(1)])
qed

theorem polling_outcomes_witness:
  "analyze_audio failing_job_world ''talk.mp3'' False =
     Some ([Http (PostUpload [''RIFF'']), Http (PostTranscript ''https://cdn/u1''),
            Http (GetTranscript ''job1''), Sleep 30, Http (GetTranscript ''job1'')],
           Inl (RuntimeError ''Transcription failed: bad audio''))
   \<and> analyze_audio example_world ''talk.mp3'' False =
     Some ([Http (PostUpload [''RIFF'']), Http (PostTranscript ''https://cdn/u1''),
            Http (GetTranscript ''job1''), Sleep 30, Http (GetTranscript ''job1''), Sleep 30,
            Http (GetTranscript ''job1'')],
           process_results (poll_responses example_world 2))
   \<and> poll (poll_responses example_world) ''job1'' 0
        [Http (PostUpload [''RIFF'']), Http (PostTranscript ''https://cdn/u1'')] =
      poll (poll_responses example_world) ''job1'' 2
        [Http (PostUpload [''RIFF'']), Http (PostTranscript ''https://cdn/u1''),
         Http (GetTranscript ''job1''), Sleep 30, Http (GetTranscript ''job1''), Sleep 30]
   \<and> analyze_audio stuck_job_world ''talk.mp3'' False = None"
proof -
  let ?tr = "[Http (PostUpload [''RIFF'']), Http (PostTranscript ''https://cdn/u1'')]"
  have r1: "retries ''job1'' (Suc 0) = [Http (GetTranscript ''job1''), Sleep 30]"
    by (simp add: retries_def)
  have r2: "retries ''job1'' 2 =
      [Http (GetTranscript ''job1''), Sleep 30, Http (GetTranscript ''job1''), Sleep 30]"
    by (simp add: retries_def numeral_2_eq_2)
  have sf: "start_transcription failing_job_world ''talk.mp3'' False = (?tr, Inr ''job1'')"
    unfolding failing_job_world_def start_transcription_polls by (rule example_start)
  have pf: "\<forall>j<Suc 0. pending (poll_responses failing_job_world j)"
    by (simp add: failing_job_world_def pending_def)
  have ef: "status (poll_responses failing_job_world (Suc 0)) = Some ''error''"
    by (simp add: failing_job_world_def)
  have a: "analyze_audio failing_job_world ''talk.mp3'' False =
     Some (?tr @ [Http (GetTranscript ''job1''), Sleep 30, Http (GetTranscript ''job1'')],
           Inl (RuntimeError ''Transcription failed: bad audio''))"
  proof -
    have er: "error (poll_responses failing_job_world (Suc 0)) = Some ''bad audio''"
      by (simp add: failing_job_world_def)
    have "analyze_audio failing_job_world ''talk.mp3'' False =
       Some (?tr @ retries ''job1'' (Suc 0) @ [Http (GetTranscript ''job1'')],
         Inl (RuntimeError (''Transcription failed: '' @
           (case error (poll_responses failing_job_world (Suc 0)) of
              None \<Rightarrow> ''Unknown error'' | Some e \<Rightarrow> e))))"
      using polling_outcomes[OF sf pf] ef by blast
    then show ?thesis by (simp add: r1 er)
  qed
  have b: "analyze_audio example_world ''talk.mp3'' False =
     Some (?tr @ retries ''job1'' 2 @ [Http (GetTranscript ''job1'')],
           process_results (poll_responses example_world 2))"
    using polling_outcomes[OF example_start example_pending] example_completed by blast
  have p1: "\<forall>j<Suc 0. pending (poll_responses example_world j)"
    by (simp add: example_world_def pending_def)
  have pn: "pending (poll_responses example_world (Suc 0))"
    by (simp add: example_world_def pending_def)
  have c: "poll (poll_responses example_world) ''job1'' 0 ?tr =
      poll (poll_responses example_world) ''job1'' (Suc (Suc 0))
        (?tr @ retries ''job1'' (Suc 0) @ [Http (GetTranscript ''job1''), Sleep 30])"
    using polling_outcomes[OF example_start p1] pn by blast
  have ss: "start_transcription stuck_job_world ''talk.mp3'' False = (?tr, Inr ''job1'')"
    unfolding stuck_job_world_def start_transcription_polls by (rule example_start)
  have ps: "\<forall>j. pending (poll_responses stuck_job_world j)"
    by (simp add: stuck_job_world_def pending_def)
  have p0: "\<forall>j<0. pending (poll_responses stuck_job_world j)" by simp
  have d: "analyze_audio stuck_job_world ''talk.mp3'' False = None"
    using polling_outcomes[OF ss p0] ps by blast
  from a b c d show ?thesis by (simp add: retries_def numeral_2_eq_2)
qed

text \<open>
  C8: for an existing file, \<open>_upload_file\<close> sends one request. On status 200 with an
  \<open>upload_url\<close> it returns that string as it is (so a non-empty one when the service's
  is); on any other status it raises \<open>RuntimeError\<close> with the message
  \<open>Upload failed:\<close> and the body of the response. There is no second request.
\<close>

theorem upload_file_outcomes:
  assumes "files w file_path = Some f"
  shows "(status_code (upload_response w) = 200
            \<and> json (upload_response w) ''upload_url'' = Some url \<longrightarrow>
          upload_file w file_path = ([Http (PostUpload (read_file f))], Inr url))
       \<and> (status_code (upload_response w) = 200
            \<and> json (upload_response w) ''upload_url'' = Some url \<and> url \<noteq> [] \<longrightarrow>
          (\<exists>r. snd (upload_file w file_path) = Inr r \<and> r \<noteq> []))
       \<and> (status_code (upload_response w) \<noteq> 200 \<longrightarrow>
          upload_file w file_path =
            ([Http (PostUpload (read_file f))],
             Inl (RuntimeError (''Upload failed: '' @ resp_text (upload_response w)))))
       \<and> length (fst (upload_file w file_path)) = 1"
  using assms by (simp add: upload_file_def Let_def split: option.splits)

theorem upload_file_outcomes_witness:
  "upload_file example_world ''talk.mp3'' = ([Http (PostUpload [''RIFF''])], Inr ''https://cdn/u1'')
   \<and> (\<exists>r. snd (upload_file example_world ''talk.mp3'') = Inr r \<and> r \<noteq> [])
   \<and> upload_file rejecting_world ''talk.mp3'' =
       ([Http (PostUpload [''RIFF''])], Inl (RuntimeError ''Upload failed: Internal Server Error''))"
proof -
  have rf: "read_file ''RIFF'' = [''RIFF'']" by (rule read_file_small) simp_all
  have f1: "files example_world ''talk.mp3'' = Some ''RIFF''" by (simp add: example_world_def)
  have f2: "files rejecting_world ''talk.mp3'' = Some ''RIFF''"
    by (simp add: rejecting_world_def example_world_def)
  have ok: "status_code (upload_response example_world) = 200
      \<and> json (upload_response example_world) ''upload_url'' = Some ''https://cdn/u1''
      \<and> ''https://cdn/u1'' \<noteq> []"
    by (simp add: example_world_def)
  have bad: "status_code (upload_response rejecting_world) \<noteq> 200"
    by (simp add: rejecting_world_def)
  have t: "resp_text (upload_response rejecting_world) = ''Internal Server Error''"
    by (simp add: rejecting_world_def)
  have a: "upload_file example_world ''talk.mp3'' =
      ([Http (PostUpload (read_file ''RIFF''))], Inr ''https://cdn/u1'')"
    using upload_file_outcomes[OF f1, of "''https://cdn/u1''"] ok by blast
  have b: "\<exists>r. snd (upload_file example_world ''talk.mp3'') = Inr r \<and> r \<noteq> []"
    using upload_file_outcomes[OF f1, of "''https://cdn/u1''"] ok by blast
  have c: "upload_file rejecting_world ''talk.mp3'' =
      ([Http (PostUpload (read_file ''RIFF''))],
       Inl (RuntimeError (''Upload failed: '' @ resp_text (upload_response rejecting_world))))"
    using upload_file_outcomes[OF f2] bad by blast
  from a b c show ?thesis by (simp add: rf t)
qed

text \<open>
  C10: when the job completes with a chapter that lacks \<open>start\<close> or \<open>end\<close>,
  \<open>analyze_audio\<close> raises \<open>KeyError\<close> for one of the two keys (none of the error kinds the
  code raises itself); a chapter that has both and nothing else gives a segment with every
  other field at its default.
\<close>

theorem analyze_audio_missing_time:
  assumes "start_transcription w p u = (tr, Inr tid)"
    and "\<forall>j<n. pending (poll_responses w j)"
    and "status (poll_responses w n) = Some ''completed''"
    and "chapters (poll_responses w n) = Some cs"
    and "\<exists>c\<in>set cs. ch_start c = None \<or> ch_end c = None"
  shows "(analyze_audio w p u =
            Some (tr @ retries tid n @ [Http (GetTranscript tid)], Inl (KeyError ''start''))
          \<or> analyze_audio w p u =
            Some (tr @ retries tid n @ [Http (GetTranscript tid)], Inl (KeyError ''end'')))
       \<and> chapter_loop
            [\<lparr>ch_start = Some a, ch_end = Some b, ch_summary = None, ch_topics = None,
              ch_sentiment = None, ch_confidence = None\<rparr>] [] =
          Inr [\<lparr>start_ms = a, end_ms = b, seg_text = [], topics = [],
                sentiment = ''neutral'', confidence = Finite 1\<rparr>]"
  using analyze_audio_completed[OF assms(1-3)] process_results_missing[OF assms(4,5)]
  by (auto simp: lit_1)

theorem analyze_audio_missing_time_witness:
  "analyze_audio broken_chapter_world ''talk.mp3'' False =
     Some ([Http (PostUpload [''RIFF'']), Http (PostTranscript ''https://cdn/u1''),
            Http (GetTranscript ''job1'')], Inl (KeyError ''end''))"
proof -
  let ?tr = "[Http (PostUpload [''RIFF'']), Http (PostTranscript ''https://cdn/u1'')]"
  have st: "start_transcription broken_chapter_world ''talk.mp3'' False = (?tr, Inr ''job1'')"
    unfolding broken_chapter_world_def start_transcription_polls by (rule example_start)
  have p: "\<forall>j<0. pending (poll_responses broken_chapter_world j)" by simp
  have c: "status (poll_responses broken_chapter_world 0) = Some ''completed''"
    by (simp add: broken_chapter_world_def)
  have ch: "chapters (poll_responses broken_chapter_world 0) = Some [bare_chapter, endless_chapter]"
    by (simp add: broken_chapter_world_def)
  have m: "\<exists>c\<in>set [bare_chapter, endless_chapter]. ch_start c = None \<or> ch_end c = None"
    by (simp add: endless_chapter_def)
  have ns: "process_results (poll_responses broken_chapter_world 0) \<noteq> Inl (KeyError ''start'')"
    by (simp add: process_results_def broken_chapter_world_def bare_chapter_def
        endless_chapter_def full_chapter_def)
  have e: "analyze_audio broken_chapter_world ''talk.mp3'' False =
      Some (?tr @ retries ''job1'' 0 @ [Http (GetTranscript ''job1'')],
        process_results (poll_responses broken_chapter_world 0))"
    by (rule analyze_audio_completed[OF st p c])
  from analyze_audio_missing_time[OF st p c ch m] e ns show ?thesis
    by (auto simp: retries_def)
qed

end
